theory Spec2Isabelle
  imports Main "HOL-Library.AList"
begin

section \<open>Entities and the local entity map\<close>

text \<open>
  \<^verbatim>\<open>getProcessingQueues<T>(remoteEnties: PEntity<T>[], localEntities: PLibraryEntity<T>)\<close>
  of \<^verbatim>\<open>photos-library.ts\<close> uses three operations of a remote entity: \<^verbatim>\<open>getUUID()\<close>,
  \<^verbatim>\<open>equal(localEntity)\<close> and \<^verbatim>\<open>unpack()\<close>. The interface \<^verbatim>\<open>PEntity\<close> is declared in
  \<^verbatim>\<open>model/photos-entity\<close>, which is not among the sources, so the three operations are
  parameters of the model (type \<open>'r\<close> is \<^verbatim>\<open>PEntity<T>\<close>, type \<open>'t\<close> is \<^verbatim>\<open>T\<close>).
\<close>

record ('r, 't) PEntity =
  getUUID :: "'r \<Rightarrow> string"
  equal :: "'r \<Rightarrow> 't \<Rightarrow> bool"
  unpack :: "'r \<Rightarrow> 't"

text \<open>
  \<^verbatim>\<open>PLibraryEntity<T>\<close> is a JavaScript object used as a dictionary from UUID to entity.
  It is modelled by the list of its own properties in enumeration order; a well-formed
  object has no key twice (\<open>distinct (map fst localEntities)\<close>). Reading a property is
  \<^const>\<open>map_of\<close> (\<open>None\<close> is \<^verbatim>\<open>undefined\<close>), \<^verbatim>\<open>delete obj[k]\<close> is \<^const>\<open>AList.delete\<close>, which
  keeps the other properties in their order, and \<^verbatim>\<open>Object.values(obj)\<close> is \<open>map snd\<close>.
\<close>

type_synonym 't PLibraryEntity = "(string \<times> 't) list"

section \<open>The differ: getProcessingQueues\<close>

text \<open>
  The body of the \<^verbatim>\<open>forEach\<close> callback. The state it works on is the array
  \<^verbatim>\<open>toBeAdded\<close> and the object \<^verbatim>\<open>localEntities\<close>, which is the caller's object: the function
  deletes from it in place.
\<close>

definition diffStep ::
  "('r, 't) PEntity \<Rightarrow> 'r \<Rightarrow> 't list \<times> 't PLibraryEntity \<Rightarrow> 't list \<times> 't PLibraryEntity" where
  "diffStep E remoteEntity st =
     (case st of (toBeAdded, localEntities) \<Rightarrow>
        (case map_of localEntities (getUUID E remoteEntity) of
           None \<Rightarrow> (toBeAdded @ [unpack E remoteEntity], localEntities)
         | Some localEntity \<Rightarrow>
             if \<not> equal E remoteEntity localEntity
             then (toBeAdded @ [unpack E remoteEntity], localEntities)
             else (toBeAdded, AList.delete (getUUID E remoteEntity) localEntities)))"

text \<open>
  The function returns the two-element array \<^verbatim>\<open>[toBeDeleted, toBeAdded]\<close>. The model
  returns it together with the final content of the argument object \<^verbatim>\<open>localEntities\<close>,
  which the caller still holds after the call.
\<close>

record 't ProcessingQueues =
  toBeDeleted :: "'t list"
  toBeAdded :: "'t list"

definition getProcessingQueues ::
  "('r, 't) PEntity \<Rightarrow> 'r list \<Rightarrow> 't PLibraryEntity \<Rightarrow> 't ProcessingQueues \<times> 't PLibraryEntity" where
  "getProcessingQueues E remoteEnties localEntities =
     (case fold (diffStep E) remoteEnties ([], localEntities) of
        (added, localEntities') \<Rightarrow>
          (\<lparr>toBeDeleted = map snd localEntities', toBeAdded = added\<rparr>, localEntities'))"

text \<open>
  Two predicates used to state what the queues hold: a remote entity finds an equal
  entry under its UUID, and a local entry is matched by an equal remote entity.
\<close>

definition hasEqualLocal :: "('r, 't) PEntity \<Rightarrow> 't PLibraryEntity \<Rightarrow> 'r \<Rightarrow> bool" where
  "hasEqualLocal E localEntities r =
     (case map_of localEntities (getUUID E r) of None \<Rightarrow> False | Some l \<Rightarrow> equal E r l)"

definition matchedBy :: "('r, 't) PEntity \<Rightarrow> 'r list \<Rightarrow> string \<times> 't \<Rightarrow> bool" where
  "matchedBy E remoteEnties entry =
     list_ex (\<lambda>r. getUUID E r = fst entry \<and> equal E r (snd entry)) remoteEnties"

subsection \<open>Concrete entities used in examples\<close>

text \<open>An entity reduced to its UUID and a fingerprint, equal when the fingerprints agree.\<close>

definition fingerprintEntity :: "(string \<times> nat, string \<times> nat) PEntity" where
  "fingerprintEntity =
     \<lparr>getUUID = fst, equal = (\<lambda>r l. snd r = snd l), unpack = (\<lambda>r. r)\<rparr>"

section \<open>The sync engine\<close>

subsection \<open>Errors\<close>

text \<open>
  A value thrown by a collaborator (the transport, the library, a helper): an error
  object. The engine inspects only its \<^verbatim>\<open>code\<close> property, which is \<open>None\<close> when the
  property is absent or is not a string.
\<close>

datatype thrown = Thrown (code: "string option") (message: string)

text \<open>
  What \<^verbatim>\<open>sync()\<close> can reject with: the two errors it constructs itself,
  \<^verbatim>\<open>new iCPSError(SYNC_ERR.MAX_RETRY).addMessage(`${retryCount}`)\<close> (the model keeps the
  number that the template literal renders) and
  \<^verbatim>\<open>new iCPSError(SYNC_ERR.UNKNOWN_SYNC).addCause(err)\<close>, or a collaborator's error that
  passes through it unchanged.
\<close>

datatype sync_error =
    MAX_RETRY int
  | UNKNOWN_SYNC thrown
  | Rethrown thrown

text \<open>
  \<^verbatim>\<open>checkFatalError(err): boolean\<close>: \<open>Inr b\<close> is \<^verbatim>\<open>return b\<close>, \<open>Inl e\<close> is \<^verbatim>\<open>throw e\<close>.
\<close>

definition checkFatalError :: "thrown \<Rightarrow> sync_error + bool" where
  "checkFatalError err =
     (if code err = Some ''ERR_BAD_RESPONSE'' then Inr False
      else if code err = Some ''ERR_BAD_REQUEST'' then Inr False
      else if code err = Some ''EAI_AGAIN'' then Inr False
      else Inl (UNKNOWN_SYNC err))"

subsection \<open>One attempt and its environment\<close>

text \<open>
  \<^verbatim>\<open>sync()\<close> awaits its collaborators; what each of them does in a given attempt is the
  environment of the model. For the attempt numbered \<^verbatim>\<open>retryCount\<close> it says whether
  \<^verbatim>\<open>fetchAndLoadState()\<close>, \<^verbatim>\<open>diffState()\<close> and \<^verbatim>\<open>writeState()\<close> resolve (\<open>None\<close>) or reject with a
  value, what \<^verbatim>\<open>this.downloadQueue\<close> is when \<^verbatim>\<open>prepareRetry()\<close> looks at it (\<open>None\<close> when it
  was never initialised, else its \<^verbatim>\<open>size\<close> and \<^verbatim>\<open>pending\<close>), and whether the promise
  \<^verbatim>\<open>iCloudReady\<close> resolves.
\<close>

record attempt =
  fetchAndLoadState :: "thrown option"
  diffState :: "thrown option"
  writeState :: "thrown option"
  downloadQueue :: "(nat \<times> nat) option"
  iCloudReady :: "thrown option"

text \<open>What an observer sees of a run: the events emitted by \<^verbatim>\<open>sync()\<close> and the calls it makes.\<close>

datatype action =
    EmitSTART
  | EmitDONE
  | EmitRETRY int
  | CallFetchAndLoadState
  | CallDiffState
  | CallWriteState
  | QueueClear
  | QueueOnIdle
  | GetReady
  | SetupAccount

text \<open>
  \<^verbatim>\<open>prepareRetry()\<close>: clears the queue when jobs are waiting, awaits the jobs in flight,
  then refreshes the session and awaits \<^verbatim>\<open>iCloudReady\<close>, whose rejection it does not catch.
\<close>

definition prepareRetry :: "attempt \<Rightarrow> thrown option \<times> action list" where
  "prepareRetry a =
     (let drained =
            (case downloadQueue a of
               None \<Rightarrow> []
             | Some (qsize, pending) \<Rightarrow>
                 (if qsize > 0 then [QueueClear] else []) @
                 (if pending > 0 then [QueueOnIdle] else []))
      in (iCloudReady a, drained @ [GetReady, SetupAccount]))"

subsection \<open>The retry loop\<close>

datatype sync_result =
    Resolved int
  | Rejected sync_error

text \<open>
  The \<^verbatim>\<open>while (this.maxRetry > retryCount)\<close> loop of \<^verbatim>\<open>sync()\<close>. \<^verbatim>\<open>fetchAndLoadState()\<close> and
  \<^verbatim>\<open>diffState()\<close> are awaited before the \<^verbatim>\<open>try\<close> block, so what they throw leaves the
  function; only \<^verbatim>\<open>writeState()\<close> is inside \<^verbatim>\<open>try\<close>. The \<^verbatim>\<open>catch\<close> block calls
  \<^verbatim>\<open>checkFatalError\<close>, emits \<^verbatim>\<open>RETRY\<close> and awaits \<^verbatim>\<open>prepareRetry()\<close>. \<open>Resolved n\<close> is the
  return of the remote state fetched in attempt \<open>n\<close>. The count is an integer; it grows by
  one in every iteration, so the loop ends for every bound.
\<close>

function sync_loop ::
  "int \<Rightarrow> (int \<Rightarrow> attempt) \<Rightarrow> int \<Rightarrow> action list \<Rightarrow> sync_result \<times> action list" where
  "sync_loop maxRetry env retryCount tr =
     (if maxRetry > retryCount then
        (let retryCount' = retryCount + 1;
             a = env retryCount'
         in case fetchAndLoadState a of
              Some e \<Rightarrow> (Rejected (Rethrown e), tr @ [CallFetchAndLoadState])
            | None \<Rightarrow>
               (case diffState a of
                  Some e \<Rightarrow> (Rejected (Rethrown e), tr @ [CallFetchAndLoadState, CallDiffState])
                | None \<Rightarrow>
                   (case writeState a of
                      None \<Rightarrow>
                        (Resolved retryCount',
                         tr @ [CallFetchAndLoadState, CallDiffState, CallWriteState, EmitDONE])
                    | Some err \<Rightarrow>
                       (case checkFatalError err of
                          Inl fatal \<Rightarrow>
                            (Rejected fatal,
                             tr @ [CallFetchAndLoadState, CallDiffState, CallWriteState])
                        | Inr _ \<Rightarrow>
                           (case fst (prepareRetry a) of
                              Some e \<Rightarrow>
                                (Rejected (Rethrown e),
                                 tr @ [CallFetchAndLoadState, CallDiffState, CallWriteState,
                                       EmitRETRY retryCount'] @ snd (prepareRetry a))
                            | None \<Rightarrow>
                                sync_loop maxRetry env retryCount'
                                  (tr @ [CallFetchAndLoadState, CallDiffState, CallWriteState,
                                         EmitRETRY retryCount'] @ snd (prepareRetry a)))))))
      else (Rejected (MAX_RETRY retryCount), tr))"
  by pat_completeness auto
termination
  by (relation "measure (\<lambda>(maxRetry, env, retryCount, tr). nat (maxRetry - retryCount))") auto

definition sync :: "int \<Rightarrow> (int \<Rightarrow> attempt) \<Rightarrow> sync_result \<times> action list" where
  "sync maxRetry env = sync_loop maxRetry env 0 [EmitSTART]"

text \<open>The three codes that \<^verbatim>\<open>checkFatalError\<close> lets pass.\<close>

definition recoverableCodes :: "string option set" where
  "recoverableCodes = {Some ''ERR_BAD_RESPONSE'', Some ''ERR_BAD_REQUEST'', Some ''EAI_AGAIN''}"

subsection \<open>Environments used in examples\<close>

definition badResponse :: thrown where
  "badResponse = Thrown (Some ''ERR_BAD_RESPONSE'') ''Request failed with status code 503''"

definition connectionReset :: thrown where
  "connectionReset = Thrown (Some ''ECONNRESET'') ''socket hang up''"

definition attemptOk :: attempt where
  "attemptOk = \<lparr>fetchAndLoadState = None, diffState = None, writeState = None,
                downloadQueue = None, iCloudReady = None\<rparr>"

definition fetchFails :: "int \<Rightarrow> attempt" where
  "fetchFails n = attemptOk\<lparr>fetchAndLoadState := Some badResponse\<rparr>"

definition diffFails :: "int \<Rightarrow> attempt" where
  "diffFails n = attemptOk\<lparr>diffState := Some badResponse\<rparr>"

definition writeFails :: "int \<Rightarrow> attempt" where
  "writeFails n = attemptOk\<lparr>writeState := Some badResponse, downloadQueue := Some (4, 2)\<rparr>"

definition refreshFails :: "int \<Rightarrow> attempt" where
  "refreshFails n = attemptOk\<lparr>writeState := Some badResponse, iCloudReady := Some connectionReset\<rparr>"

section \<open>The local library on disk\<close>

subsection \<open>Albums\<close>

datatype AlbumType = FOLDER | ALBUM | ARCHIVED

text \<open>
  The class \<^verbatim>\<open>Album\<close> (\<^verbatim>\<open>model/album\<close>) is not among the sources. The record has the five
  arguments that \<^verbatim>\<open>loadAlbum\<close> passes to \<^verbatim>\<open>new Album(uuid, folderType, link.name,
  album.getUUID(), fullPath)\<close>, in that order, and the \<^verbatim>\<open>assets\<close> object that \<^verbatim>\<open>loadAlbum\<close>
  writes to (a dictionary from asset UUID to file name, empty in a new album).
  \<^verbatim>\<open>getUUID()\<close> reads the first of them.
\<close>

record Album =
  uuid :: string
  albumType :: AlbumType
  albumName :: string
  parentAlbumUUID :: string
  albumPath :: string
  assets :: "(string \<times> string) list"

definition newAlbum :: "string \<Rightarrow> AlbumType \<Rightarrow> string \<Rightarrow> string \<Rightarrow> string \<Rightarrow> Album" where
  "newAlbum u t n parent p =
     \<lparr>uuid = u, albumType = t, albumName = n, parentAlbumUUID = parent, albumPath = p,
      assets = []\<rparr>"

subsection \<open>Paths (Node's POSIX \<^verbatim>\<open>path\<close> module)\<close>

text \<open>
  \<^verbatim>\<open>path.basename(p)\<close>: trailing separators are dropped, then the characters after the last
  remaining separator are returned.
\<close>

definition basename :: "string \<Rightarrow> string" where
  "basename p =
     rev (takeWhile (\<lambda>c. c \<noteq> CHR ''/'') (dropWhile (\<lambda>c. c = CHR ''/'') (rev p)))"

text \<open>
  \<^verbatim>\<open>path.parse(p).name\<close>: the base name without its extension. The extension starts at the
  last dot of the base name, unless that dot is the first character or the base name is
  \<^verbatim>\<open>..\<close>. Node compares the position of the dot with the start of the last component,
  which it leaves at 0 when the component follows the root \<^verbatim>\<open>/\<close> directly: there \<^verbatim>\<open>..\<close> is
  not recognised and is split into the name \<^verbatim>\<open>.\<close> and the extension \<^verbatim>\<open>.\<close>.
\<close>

definition parseName :: "string \<Rightarrow> string" where
  "parseName p =
     (let base = basename p;
          stripped = rev (dropWhile (\<lambda>c. c = CHR ''/'') (rev p));
          afterRoot = (take (length stripped - length base) stripped = ''/'');
          ext = takeWhile (\<lambda>c. c \<noteq> CHR ''.'') (rev base);
          stem = take (length base - length ext - 1) base
      in if CHR ''.'' \<notin> set base then base
         else if stem = [] then base
         else if base = ''..'' \<and> \<not> afterRoot then base
         else stem)"

fun splitSlash :: "string \<Rightarrow> string list" where
  "splitSlash [] = [[]]"
| "splitSlash (c # cs) =
     (if c = CHR ''/'' then [] # splitSlash cs
      else (case splitSlash cs of [] \<Rightarrow> [[c]] | s # ss \<Rightarrow> (c # s) # ss))"

fun joinSlash :: "string list \<Rightarrow> string" where
  "joinSlash [] = []"
| "joinSlash [s] = s"
| "joinSlash (s # ss) = s @ ''/'' @ joinSlash ss"

text \<open>
  One segment of \<^verbatim>\<open>normalizeString\<close>: empty segments and \<^verbatim>\<open>.\<close> are skipped, \<^verbatim>\<open>..\<close> removes
  the last segment kept so far unless there is none or it is \<^verbatim>\<open>..\<close> itself, in which case
  it is kept only when the path is relative.
\<close>

definition normalizeSegment :: "bool \<Rightarrow> string \<Rightarrow> string list \<Rightarrow> string list" where
  "normalizeSegment allowAboveRoot seg res =
     (if seg = [] \<or> seg = ''.'' then res
      else if seg = ''..'' then
        (if res \<noteq> [] \<and> last res \<noteq> ''..'' then butlast res
         else if allowAboveRoot then res @ [''..'']
         else res)
      else res @ [seg])"

definition normalize :: "string \<Rightarrow> string" where
  "normalize p =
     (if p = [] then ''.''
      else
        (let isAbsolute = (hd p = CHR ''/'');
             trailingSeparator = (last p = CHR ''/'');
             path = joinSlash (fold (normalizeSegment (\<not> isAbsolute)) (splitSlash p) [])
         in if path = [] then
              (if isAbsolute then ''/'' else if trailingSeparator then ''./'' else ''.'')
            else (if isAbsolute then ''/'' else []) @ path
                 @ (if trailingSeparator then ''/'' else [])))"

text \<open>\<^verbatim>\<open>path.join(a, b)\<close>: the non-empty arguments joined by a separator, then normalised.\<close>

definition path_join :: "string \<Rightarrow> string \<Rightarrow> string" where
  "path_join a b =
     (let joined = (if a = [] then b else if b = [] then a else a @ ''/'' @ b)
      in if joined = [] then ''.'' else normalize joined)"

subsection \<open>The file system\<close>

text \<open>
  A directory entry as \<^verbatim>\<open>fs.readdir(path, {withFileTypes: true})\<close> returns it: a name and
  one type. \<^verbatim>\<open>isFile()\<close>, \<^verbatim>\<open>isDirectory()\<close> and \<^verbatim>\<open>isSymbolicLink()\<close> test the type; every
  other type (socket, FIFO, device, unknown) is \<open>OtherType\<close>.
\<close>

datatype DirentType = FileType | DirectoryType | SymbolicLinkType | OtherType

datatype Dirent = Dirent (name: string) (direntType: DirentType)

definition isFile :: "Dirent \<Rightarrow> bool" where
  "isFile file = (direntType file = FileType)"

definition isDirectory :: "Dirent \<Rightarrow> bool" where
  "isDirectory file = (direntType file = DirectoryType)"

definition isSymbolicLink :: "Dirent \<Rightarrow> bool" where
  "isSymbolicLink file = (direntType file = SymbolicLinkType)"

text \<open>
  The file system is read, never written, by the functions modelled here: it is a table of
  what \<^verbatim>\<open>readdir\<close> and \<^verbatim>\<open>readlink\<close> answer for each path. A path without an answer makes
  the call reject.
\<close>

record filesystem =
  directories :: "(string \<times> Dirent list) list"
  symlinks :: "(string \<times> string) list"

datatype load_error = FsError string | TypeError

definition readdir :: "filesystem \<Rightarrow> string \<Rightarrow> load_error + Dirent list" where
  "readdir fs p = (case map_of (directories fs) p of None \<Rightarrow> Inl (FsError p) | Some es \<Rightarrow> Inr es)"

definition readlink :: "filesystem \<Rightarrow> string \<Rightarrow> load_error + string" where
  "readlink fs p = (case map_of (symlinks fs) p of None \<Rightarrow> Inl (FsError p) | Some t \<Rightarrow> Inr t)"

subsection \<open>readAlbumTypeFromPath\<close>

text \<open>
  The function reads the directory twice, once for each test. The result is the list of
  warnings logged and the album type.
\<close>

definition readAlbumTypeFromPath ::
  "filesystem \<Rightarrow> string \<Rightarrow> load_error + (string list \<times> AlbumType)" where
  "readAlbumTypeFromPath fs path =
     (case readdir fs path of
        Inl e \<Rightarrow> Inl e
      | Inr entries1 \<Rightarrow>
         (let directoryPresent = list_ex isDirectory entries1
          in case readdir fs path of
               Inl e \<Rightarrow> Inl e
             | Inr entries2 \<Rightarrow>
                (let filePresent = list_ex isFile entries2
                 in if directoryPresent then
                      Inr (if filePresent then [''Extranous file found in folder '' @ path]
                           else [], FOLDER)
                    else if filePresent then Inr ([], ARCHIVED)
                    else Inr ([], ALBUM))))"

subsection \<open>loadAlbum and loadAlbums\<close>

text \<open>
  The \<^verbatim>\<open>for (const link of symbolicLinks)\<close> loop of \<^verbatim>\<open>loadAlbum\<close>, with the array \<^verbatim>\<open>albums\<close>
  as its state; \<open>recurse\<close> is the recursive call \<^verbatim>\<open>this.loadAlbum(loadedAlbum)\<close>. In the
  \<^verbatim>\<open>ALBUM\<close> branch \<^verbatim>\<open>albums[0].assets[uuid] = link.name\<close> throws a \<^verbatim>\<open>TypeError\<close> when the array
  is empty, which is the case for an album whose UUID is empty.
\<close>

fun loadAlbumLinks ::
  "(Album \<Rightarrow> (load_error + Album list) option) \<Rightarrow> filesystem \<Rightarrow> Album \<Rightarrow> Dirent list
     \<Rightarrow> Album list \<Rightarrow> (load_error + Album list) option" where
  "loadAlbumLinks recurse fs album [] albums = Some (Inr albums)"
| "loadAlbumLinks recurse fs album (link # links) albums =
     (case readlink fs (path_join (albumPath album) (name link)) of
        Inl e \<Rightarrow> Some (Inl e)
      | Inr target \<Rightarrow>
         (case albumType album of
            FOLDER \<Rightarrow>
              (let uuid' = drop 1 (basename target);
                   fullPath = path_join (albumPath album) target
               in case readAlbumTypeFromPath fs fullPath of
                    Inl e \<Rightarrow> Some (Inl e)
                  | Inr (warnings, folderType) \<Rightarrow>
                     (let loadedAlbum = newAlbum uuid' folderType (name link) (uuid album) fullPath
                      in case recurse loadedAlbum of
                           None \<Rightarrow> None
                         | Some (Inl e) \<Rightarrow> Some (Inl e)
                         | Some (Inr loaded) \<Rightarrow>
                             loadAlbumLinks recurse fs album links (albums @ loaded)))
          | ALBUM \<Rightarrow>
              (let uuid' = parseName target
               in case albums of
                    [] \<Rightarrow> Some (Inl TypeError)
                  | first # others \<Rightarrow>
                      loadAlbumLinks recurse fs album links
                        (first\<lparr>assets := AList.update uuid' (name link) (assets first)\<rparr> # others))
          | ARCHIVED \<Rightarrow> loadAlbumLinks recurse fs album links albums))"

text \<open>
  \<^verbatim>\<open>loadAlbum\<close> follows symbolic links, and a link may lead back to a directory already
  visited, so the recursion need not end. The first argument bounds the depth of the
  recursion; \<open>None\<close> means that the bound was reached.
\<close>

fun loadAlbum :: "nat \<Rightarrow> filesystem \<Rightarrow> Album \<Rightarrow> (load_error + Album list) option" where
  "loadAlbum 0 fs album = None"
| "loadAlbum (Suc n) fs album =
     (let albums = (if length (uuid album) > 0 then [album] else [])
      in case readdir fs (albumPath album) of
           Inl e \<Rightarrow> Some (Inl e)
         | Inr entries \<Rightarrow>
             loadAlbumLinks (loadAlbum n fs) fs album (filter isSymbolicLink entries) albums)"

text \<open>
  \<^verbatim>\<open>loadAlbums\<close> starts at \<^verbatim>\<open>Album.getRootAlbum(this.photoDataDir)\<close>, which is not among the
  sources: the root album is an argument of the model. Each loaded album is stored under
  its UUID in a new object; a key that is new goes to the end of the list, which is the
  enumeration order of JavaScript for keys that are not array indices. The theorems
  about this map speak of its entries, not of their order.
\<close>

definition loadAlbums ::
  "nat \<Rightarrow> filesystem \<Rightarrow> Album \<Rightarrow> (load_error + Album PLibraryEntity) option" where
  "loadAlbums n fs rootAlbum =
     (case loadAlbum n fs rootAlbum of
        None \<Rightarrow> None
      | Some (Inl e) \<Rightarrow> Some (Inl e)
      | Some (Inr albums) \<Rightarrow>
          Some (Inr (fold (\<lambda>album libAlbums. AList.update (uuid album) album libAlbums)
                       albums [])))"

subsection \<open>Where a loaded album comes from\<close>

text \<open>
  Used to state what \<^verbatim>\<open>loadAlbum\<close> returns. An album comes from a link when some directory
  of the file system holds a symbolic link under the album's name, the album's path is the
  link's target joined to that directory, and the album's UUID is the base name of the
  target without its first character. Two albums are the same album when they agree on
  UUID, name and path (\<^verbatim>\<open>loadAlbum\<close> changes the \<^verbatim>\<open>assets\<close> of the album it was given).
\<close>

definition loadedFromLink :: "filesystem \<Rightarrow> Album \<Rightarrow> bool" where
  "loadedFromLink fs album =
     (\<exists>(dir, entries) \<in> set (directories fs). \<exists>(link, target) \<in> set (symlinks fs).
        link = path_join dir (albumName album)
        \<and> albumPath album = path_join dir target
        \<and> uuid album = drop 1 (basename target))"

definition sameAlbum :: "Album \<Rightarrow> Album \<Rightarrow> bool" where
  "sameAlbum a b = (uuid a = uuid b \<and> albumName a = albumName b \<and> albumPath a = albumPath b)"

subsection \<open>Albums as entities of the differ\<close>



text \<open>
  Modelled from the spec: \<^verbatim>\<open>Album.getRootAlbum\<close> (\<^verbatim>\<open>model/album\<close>, not among the sources).
  Section 3 of the specification: the root album has the empty UUID; it holds child
  albums, so its kind is \<^verbatim>\<open>FOLDER\<close>. Its name and its parent are not read by the functions
  modelled here and are left empty.
\<close>

definition getRootAlbum :: "string \<Rightarrow> Album" where
  "getRootAlbum photoDataDir = newAlbum [] FOLDER [] [] photoDataDir"

subsection \<open>Trees and albums used in examples\<close>

text \<open>
  A directory with a subdirectory, a regular file and a link, and one with a regular file
  and a link.
\<close>

definition treeMixed :: filesystem where
  "treeMixed =
     \<lparr>directories =
        [(''/data/.F1'', [Dirent ''.A1'' DirectoryType, Dirent ''notes.txt'' FileType,
                          Dirent ''Rome'' SymbolicLinkType]),
         (''/data/.F2'', [Dirent ''holiday.jpg'' FileType, Dirent ''Rome'' SymbolicLinkType])],
      symlinks = []\<rparr>"

text \<open>
  A data directory whose only album directory is named \<^verbatim>\<open>.F1-Trips\<close>, reached by the link
  \<^verbatim>\<open>Trips\<close>.
\<close>

definition treeSpecLayout :: filesystem where
  "treeSpecLayout =
     \<lparr>directories =
        [(''/data'', [Dirent ''assets'' DirectoryType, Dirent ''.F1-Trips'' DirectoryType,
                      Dirent ''Trips'' SymbolicLinkType]),
         (''/data/.F1-Trips'', [])],
      symlinks = [(''/data/Trips'', ''.F1-Trips'')]\<rparr>"

text \<open>
  A folder \<^verbatim>\<open>F1\<close> (link \<^verbatim>\<open>Trips\<close>) that holds the album \<^verbatim>\<open>A1\<close> (link \<^verbatim>\<open>Rome\<close>) with one
  asset link.
\<close>

definition treeNested :: filesystem where
  "treeNested =
     \<lparr>directories =
        [(''/data'', [Dirent ''assets'' DirectoryType, Dirent ''.F1'' DirectoryType,
                      Dirent ''Trips'' SymbolicLinkType]),
         (''/data/.F1'', [Dirent ''.A1'' DirectoryType, Dirent ''Rome'' SymbolicLinkType]),
         (''/data/.F1/.A1'', [Dirent ''img.jpg'' SymbolicLinkType])],
      symlinks =
        [(''/data/Trips'', ''.F1''), (''/data/.F1/Rome'', ''.A1''),
         (''/data/.F1/.A1/img.jpg'', ''../../assets/a1.jpg'')]\<rparr>"





section \<open>Properties of the differ\<close>

lemma diffStep_eq:
  "diffStep E r (acc, L) =
     (if hasEqualLocal E L r then (acc, AList.delete (getUUID E r) L)
      else (acc @ [unpack E r], L))"
  by (simp add: diffStep_def hasEqualLocal_def split: option.splits)

lemma delete_matched_filter:
  assumes d: "distinct (map fst L)" and h: "hasEqualLocal E L r"
  shows "filter (\<lambda>e. \<not> matchedBy E rs e) (AList.delete (getUUID E r) L)
       = filter (\<lambda>e. \<not> matchedBy E (r # rs) e) L"
proof -
  have "\<And>e. e \<in> set L \<Longrightarrow>
          (fst e \<noteq> getUUID E r \<and> \<not> matchedBy E rs e) = (\<not> matchedBy E (r # rs) e)"
  proof -
    fix e assume e: "e \<in> set L"
    obtain k l where kl: "e = (k, l)" by (cases e)
    from d e kl have m: "map_of L k = Some l" by simp
    show "(fst e \<noteq> getUUID E r \<and> \<not> matchedBy E rs e) = (\<not> matchedBy E (r # rs) e)"
      using h m kl by (auto simp: matchedBy_def hasEqualLocal_def)
  qed
  then have "filter (\<lambda>e. fst e \<noteq> getUUID E r \<and> \<not> matchedBy E rs e) L
           = filter (\<lambda>e. \<not> matchedBy E (r # rs) e) L"
    by (intro filter_cong) auto
  moreover have "AList.delete (getUUID E r) L = filter (\<lambda>e. fst e \<noteq> getUUID E r) L"
    by (auto simp: AList.delete_eq intro: filter_cong)
  ultimately show ?thesis by simp
qed

lemma keep_unmatched_filter:
  assumes d: "distinct (map fst L)" and h: "\<not> hasEqualLocal E L r"
  shows "filter (\<lambda>e. \<not> matchedBy E rs e) L = filter (\<lambda>e. \<not> matchedBy E (r # rs) e) L"
proof (rule filter_cong[OF refl])
  fix e assume e: "e \<in> set L"
  obtain k l where kl: "e = (k, l)" by (cases e)
  from d e kl have m: "map_of L k = Some l" by simp
  show "(\<not> matchedBy E rs e) = (\<not> matchedBy E (r # rs) e)"
    using h m kl by (auto simp: matchedBy_def hasEqualLocal_def)
qed

lemma fold_diffStep_snd:
  "distinct (map fst L) \<Longrightarrow>
     snd (fold (diffStep E) R (acc, L)) = filter (\<lambda>e. \<not> matchedBy E R e) L"
proof (induction R arbitrary: acc L)
  case Nil
  show ?case by (simp add: matchedBy_def)
next
  case (Cons r rs)
  show ?case
  proof (cases "hasEqualLocal E L r")
    case True
    have "distinct (map fst (AList.delete (getUUID E r) L))"
      using Cons.prems by (rule distinct_delete)
    then show ?thesis
      using True Cons.IH delete_matched_filter[OF Cons.prems True]
      by (simp add: diffStep_eq)
  next
    case False
    then show ?thesis
      using Cons.IH[OF Cons.prems] keep_unmatched_filter[OF Cons.prems False]
      by (simp add: diffStep_eq)
  qed
qed

lemma hasEqualLocal_delete_other:
  "getUUID E r' \<noteq> k \<Longrightarrow> hasEqualLocal E (AList.delete k L) r' = hasEqualLocal E L r'"
  by (simp add: hasEqualLocal_def)

lemma fold_diffStep_fst:
  "distinct (map (getUUID E) R) \<Longrightarrow>
     fst (fold (diffStep E) R (acc, L))
       = acc @ map (unpack E) (filter (\<lambda>r. \<not> hasEqualLocal E L r) R)"
proof (induction R arbitrary: acc L)
  case Nil
  show ?case by simp
next
  case (Cons r rs)
  from Cons.prems have drs: "distinct (map (getUUID E) rs)"
    and nin: "\<forall>r' \<in> set rs. getUUID E r' \<noteq> getUUID E r" by (auto simp: image_iff)
  show ?case
  proof (cases "hasEqualLocal E L r")
    case True
    have "filter (\<lambda>r'. \<not> hasEqualLocal E (AList.delete (getUUID E r) L) r') rs
        = filter (\<lambda>r'. \<not> hasEqualLocal E L r') rs"
      using nin by (intro filter_cong) (auto simp: hasEqualLocal_delete_other)
    then show ?thesis
      using True Cons.IH[OF drs] by (simp add: diffStep_eq)
  next
    case False
    then show ?thesis
      using Cons.IH[OF drs] by (simp add: diffStep_eq)
  qed
qed

lemma getProcessingQueues_map:
  "distinct (map fst L) \<Longrightarrow>
     snd (getProcessingQueues E R L) = filter (\<lambda>e. \<not> matchedBy E R e) L"
  using fold_diffStep_snd[of L E R "[]"]
  by (simp add: getProcessingQueues_def case_prod_beta)

lemma getProcessingQueues_toBeDeleted:
  "distinct (map fst L) \<Longrightarrow>
     toBeDeleted (fst (getProcessingQueues E R L))
       = map snd (filter (\<lambda>e. \<not> matchedBy E R e) L)"
  using fold_diffStep_snd[of L E R "[]"]
  by (simp add: getProcessingQueues_def case_prod_beta)

lemma getProcessingQueues_toBeAdded:
  "distinct (map (getUUID E) R) \<Longrightarrow>
     toBeAdded (fst (getProcessingQueues E R L))
       = map (unpack E) (filter (\<lambda>r. \<not> hasEqualLocal E L r) R)"
  using fold_diffStep_fst[of E R "[]" L]
  by (simp add: getProcessingQueues_def case_prod_beta)


lemma changed_entity_queues:
  assumes dl: "distinct (map fst L)" and dr: "distinct (map (getUUID E) R)"
    and r: "r \<in> set R" and m: "map_of L (getUUID E r) = Some l" and ne: "\<not> equal E r l"
  shows "unpack E r \<in> set (toBeAdded (fst (getProcessingQueues E R L)))
       \<and> l \<in> set (toBeDeleted (fst (getProcessingQueues E R L)))"
proof
  from m ne have "\<not> hasEqualLocal E L r" by (simp add: hasEqualLocal_def)
  with r show "unpack E r \<in> set (toBeAdded (fst (getProcessingQueues E R L)))"
    unfolding getProcessingQueues_toBeAdded[OF dr] by auto
  from m have inL: "(getUUID E r, l) \<in> set L" by (auto dest: map_of_SomeD)
  have "\<not> matchedBy E R (getUUID E r, l)"
  proof
    assume "matchedBy E R (getUUID E r, l)"
    then obtain r' where r': "r' \<in> set R" "getUUID E r' = getUUID E r" "equal E r' l"
      by (auto simp: matchedBy_def list_ex_iff)
    from dr have "inj_on (getUUID E) (set R)" by (simp add: distinct_map)
    with r' r have "r' = r" by (auto dest: inj_onD)
    with r' ne show False by simp
  qed
  with inL show "l \<in> set (toBeDeleted (fst (getProcessingQueues E R L)))"
    unfolding getProcessingQueues_toBeDeleted[OF dl] by force
qed

subsection \<open>What the two queues hold\<close>

text \<open>
  Claim C1, as the code has it. \<^verbatim>\<open>getProcessingQueues\<close> returns the pair
  \<^verbatim>\<open>[toBeDeleted, toBeAdded]\<close>; it builds no list of kept entities. For a local map without
  repeated keys and a remote list whose UUIDs are pairwise distinct: \<^verbatim>\<open>toBeAdded\<close> holds,
  in the order of the remote list, exactly the (unpacked) remote entities that find no
  equal entry under their UUID in the local map; \<^verbatim>\<open>toBeDeleted\<close> holds exactly the local
  entries that no remote entity of the same UUID equals; and an entity that changed (same
  UUID, not equal) is in both queues.
\<close>

theorem getProcessingQueues_queues:
  assumes dl: "distinct (map fst L)" and dr: "distinct (map (getUUID E) R)"
  shows "toBeAdded (fst (getProcessingQueues E R L))
           = map (unpack E) (filter (\<lambda>r. \<not> hasEqualLocal E L r) R)
       \<and> toBeDeleted (fst (getProcessingQueues E R L))
           = map snd (filter (\<lambda>e. \<not> matchedBy E R e) L)
       \<and> (\<forall>r l. r \<in> set R \<and> map_of L (getUUID E r) = Some l \<and> \<not> equal E r l
             \<longrightarrow> unpack E r \<in> set (toBeAdded (fst (getProcessingQueues E R L)))
               \<and> l \<in> set (toBeDeleted (fst (getProcessingQueues E R L))))"
proof (intro conjI allI impI)
  show "toBeAdded (fst (getProcessingQueues E R L))
          = map (unpack E) (filter (\<lambda>r. \<not> hasEqualLocal E L r) R)"
    using dr by (rule getProcessingQueues_toBeAdded)
  show "toBeDeleted (fst (getProcessingQueues E R L))
          = map snd (filter (\<lambda>e. \<not> matchedBy E R e) L)"
    using dl by (rule getProcessingQueues_toBeDeleted)
next
  fix r l
  assume h: "r \<in> set R \<and> map_of L (getUUID E r) = Some l \<and> \<not> equal E r l"
  then have "unpack E r \<in> set (toBeAdded (fst (getProcessingQueues E R L)))
           \<and> l \<in> set (toBeDeleted (fst (getProcessingQueues E R L)))"
    using changed_entity_queues[OF dl dr] by blast
  then show "unpack E r \<in> set (toBeAdded (fst (getProcessingQueues E R L)))"
    and "l \<in> set (toBeDeleted (fst (getProcessingQueues E R L)))" by simp_all
qed

theorem getProcessingQueues_queues_witness:
  "distinct (map fst [(''a'', (''a'', 1::nat)), (''b'', (''b'', 5)), (''d'', (''d'', 4))])
   \<and> distinct (map (getUUID fingerprintEntity) [(''a'', 1), (''b'', 2), (''c'', 3)])
   \<and> toBeAdded (fst (getProcessingQueues fingerprintEntity
         [(''a'', 1), (''b'', 2), (''c'', 3)] [(''a'', (''a'', 1)), (''b'', (''b'', 5)), (''d'', (''d'', 4))]))
       = [(''b'', 2), (''c'', 3)]
   \<and> toBeDeleted (fst (getProcessingQueues fingerprintEntity
         [(''a'', 1), (''b'', 2), (''c'', 3)] [(''a'', (''a'', 1)), (''b'', (''b'', 5)), (''d'', (''d'', 4))]))
       = [(''b'', 5), (''d'', 4)]"
proof -
  have h1: "distinct (map fst [(''a'', (''a'', 1::nat)), (''b'', (''b'', 5)), (''d'', (''d'', 4))])" by simp
  have h2: "distinct (map (getUUID fingerprintEntity) [(''a'', 1), (''b'', 2), (''c'', 3)])"
    by (simp add: fingerprintEntity_def)
  from getProcessingQueues_queues[OF h1 h2] h1 h2 show ?thesis
    by (simp add: hasEqualLocal_def matchedBy_def fingerprintEntity_def)
qed

text \<open>
  The claim as worded quantifies over every remote list. When a UUID occurs twice in the
  remote list, the first occurrence that equals the local entry deletes the entry from the
  map, and the second occurrence no longer finds it: it is added although the local map
  the function was called with holds an equal entry under its UUID.
\<close>

theorem getProcessingQueues_duplicate_counterexample:
  "hasEqualLocal fingerprintEntity [(''a'', (''a'', 1))] (''a'', 1)
   \<and> toBeAdded (fst (getProcessingQueues fingerprintEntity
         [(''a'', 1), (''a'', 1)] [(''a'', (''a'', 1))])) = [(''a'', 1)]"
  by (simp add: getProcessingQueues_def diffStep_def hasEqualLocal_def fingerprintEntity_def)

subsection \<open>The effect on the argument map\<close>

text \<open>
  Claim C2, as the code has it. The function works on the caller's object, not on a copy:
  after the call the argument map holds exactly the entries that no remote entity matched,
  which are the entries returned as \<^verbatim>\<open>toBeDeleted\<close>, and it is unchanged only when no entry
  was matched. The queues are a function of the remote list and of the content of the map
  at the time of the call.
\<close>

theorem getProcessingQueues_argument_map:
  assumes dl: "distinct (map fst L)"
  shows "snd (getProcessingQueues E R L) = filter (\<lambda>e. \<not> matchedBy E R e) L
       \<and> map snd (snd (getProcessingQueues E R L)) = toBeDeleted (fst (getProcessingQueues E R L))
       \<and> (snd (getProcessingQueues E R L) = L \<longleftrightarrow> (\<forall>e \<in> set L. \<not> matchedBy E R e))"
proof (intro conjI)
  show m: "snd (getProcessingQueues E R L) = filter (\<lambda>e. \<not> matchedBy E R e) L"
    using dl by (rule getProcessingQueues_map)
  show "map snd (snd (getProcessingQueues E R L)) = toBeDeleted (fst (getProcessingQueues E R L))"
    by (simp add: getProcessingQueues_def case_prod_beta)
  show "snd (getProcessingQueues E R L) = L \<longleftrightarrow> (\<forall>e \<in> set L. \<not> matchedBy E R e)"
    unfolding m by (simp add: filter_id_conv)
qed

theorem getProcessingQueues_argument_map_witness:
  "distinct (map fst [(''a'', (''a'', 1::nat)), (''b'', (''b'', 5)), (''d'', (''d'', 4))])
   \<and> snd (getProcessingQueues fingerprintEntity
         [(''a'', 1), (''b'', 2), (''c'', 3)] [(''a'', (''a'', 1)), (''b'', (''b'', 5)), (''d'', (''d'', 4))])
       = [(''b'', (''b'', 5)), (''d'', (''d'', 4))]"
proof -
  have h1: "distinct (map fst [(''a'', (''a'', 1::nat)), (''b'', (''b'', 5)), (''d'', (''d'', 4))])" by simp
  from getProcessingQueues_argument_map[OF h1, where E = fingerprintEntity
      and R = "[(''a'', 1), (''b'', 2), (''c'', 3)]"] h1
  show ?thesis
    by (simp add: matchedBy_def fingerprintEntity_def)
qed

text \<open>
  A call on a map whose only entry is matched empties the caller's map, and a second call
  with the same list and the same map object then returns a different \<^verbatim>\<open>toBeAdded\<close>.
\<close>

theorem getProcessingQueues_pure_counterexample:
  "snd (getProcessingQueues fingerprintEntity [(''a'', 1)] [(''a'', (''a'', 1))]) = []
   \<and> toBeAdded (fst (getProcessingQueues fingerprintEntity [(''a'', 1)] [(''a'', (''a'', 1))])) = []
   \<and> toBeAdded (fst (getProcessingQueues fingerprintEntity [(''a'', 1)]
        (snd (getProcessingQueues fingerprintEntity [(''a'', 1)] [(''a'', (''a'', 1))])))) = [(''a'', 1)]"
  by (simp add: getProcessingQueues_def diffStep_def fingerprintEntity_def)

section \<open>Properties of the sync engine\<close>

declare sync_loop.simps [simp del]

text \<open>
  Claim C5. For every thrown value, \<^verbatim>\<open>checkFatalError\<close> returns normally exactly when the
  value's code is \<^verbatim>\<open>ERR_BAD_RESPONSE\<close>, \<^verbatim>\<open>ERR_BAD_REQUEST\<close> or \<^verbatim>\<open>EAI_AGAIN\<close>; for every
  other value it throws the unknown-sync error with that value as its cause; and it never
  returns \<^verbatim>\<open>true\<close>.
\<close>

theorem checkFatalError_classification:
  "((\<exists>b. checkFatalError e = Inr b) \<longleftrightarrow> code e \<in> recoverableCodes)
   \<and> (code e \<notin> recoverableCodes \<longrightarrow> checkFatalError e = Inl (UNKNOWN_SYNC e))
   \<and> checkFatalError e \<noteq> Inr True"
  by (auto simp: checkFatalError_def recoverableCodes_def)

theorem checkFatalError_classification_witness:
  "code connectionReset \<notin> recoverableCodes
   \<and> checkFatalError connectionReset = Inl (UNKNOWN_SYNC connectionReset)
   \<and> code badResponse \<in> recoverableCodes
   \<and> checkFatalError badResponse = Inr False"
proof -
  have n: "code connectionReset \<notin> recoverableCodes"
    by (simp add: connectionReset_def recoverableCodes_def)
  have r: "code badResponse \<in> recoverableCodes"
    by (simp add: badResponse_def recoverableCodes_def)
  from checkFatalError_classification[of connectionReset] n
  have 1: "checkFatalError connectionReset = Inl (UNKNOWN_SYNC connectionReset)" by blast
  from checkFatalError_classification[of badResponse] r
  obtain b where b: "checkFatalError badResponse = Inr b" "checkFatalError badResponse \<noteq> Inr True"
    by blast
  then have 2: "checkFatalError badResponse = Inr False" by (cases b) auto
  from n r 1 2 show ?thesis by blast
qed

text \<open>
  Claim C3 says that with \<^verbatim>\<open>maxRetry = -1\<close> the loop never gives up. The loop condition
  \<^verbatim>\<open>this.maxRetry > retryCount\<close> is false at once for \<open>- 1 > 0\<close>: whatever the collaborators
  would do, \<^verbatim>\<open>sync()\<close> makes no attempt and throws the max-retry error with count 0.
\<close>

theorem sync_unbounded_budget_gives_up:
  "sync (- 1) env = (Rejected (MAX_RETRY 0), [EmitSTART])"
  by (simp add: sync_def sync_loop.simps)

subsection \<open>The steps of the loop\<close>

lemma sync_loop_retry_step:
  assumes "maxRetry > c"
    and "fetchAndLoadState (env (c + 1)) = None" and "diffState (env (c + 1)) = None"
    and "writeState (env (c + 1)) = Some e" and "checkFatalError e = Inr b"
    and "fst (prepareRetry (env (c + 1))) = None"
  shows "sync_loop maxRetry env c tr
         = sync_loop maxRetry env (c + 1)
             (tr @ [CallFetchAndLoadState, CallDiffState, CallWriteState, EmitRETRY (c + 1)]
                 @ snd (prepareRetry (env (c + 1))))"
  using assms by (subst sync_loop.simps) (simp add: Let_def)

lemma checkFatalError_recoverable:
  "code e \<in> recoverableCodes \<Longrightarrow> checkFatalError e = Inr False"
  by (auto simp: checkFatalError_def recoverableCodes_def)

lemma prepareRetry_fst: "fst (prepareRetry a) = iCloudReady a"
  by (simp add: prepareRetry_def Let_def)

lemma sync_loop_trace_extends: "\<exists>tr'. snd (sync_loop maxRetry env c tr) = tr @ tr'"
proof (induction "nat (maxRetry - c)" arbitrary: c tr)
  case 0
  then have "\<not> maxRetry > c" by simp
  then show ?case by (subst sync_loop.simps) simp
next
  case (Suc n)
  then have gt: "maxRetry > c" and n: "n = nat (maxRetry - (c + 1))" by auto
  let ?a = "env (c + 1)"
  show ?case
  proof (cases "fetchAndLoadState ?a = None \<and> diffState ?a = None
      \<and> (\<exists>e b. writeState ?a = Some e \<and> checkFatalError e = Inr b)
      \<and> fst (prepareRetry ?a) = None")
    case True
    then obtain e b where e: "writeState ?a = Some e" "checkFatalError e = Inr b" by blast
    from True e gt have "sync_loop maxRetry env c tr
         = sync_loop maxRetry env (c + 1)
             (tr @ [CallFetchAndLoadState, CallDiffState, CallWriteState, EmitRETRY (c + 1)]
                 @ snd (prepareRetry ?a))"
      by (intro sync_loop_retry_step) auto
    moreover from Suc.hyps(1)[OF n] obtain tr' where
      "snd (sync_loop maxRetry env (c + 1)
             (tr @ [CallFetchAndLoadState, CallDiffState, CallWriteState, EmitRETRY (c + 1)]
                 @ snd (prepareRetry ?a)))
       = (tr @ [CallFetchAndLoadState, CallDiffState, CallWriteState, EmitRETRY (c + 1)]
                 @ snd (prepareRetry ?a)) @ tr'" by blast
    ultimately show ?thesis by simp
  next
    case False
    then show ?thesis
      using gt by (subst sync_loop.simps) (auto simp: Let_def split: option.splits sum.splits)
  qed
qed

text \<open>
  With a budget \<open>N\<close> and every remaining attempt ending in a recoverable error of the write
  phase, the loop throws the max-retry error with count \<open>N\<close> after one write per remaining
  attempt.
\<close>

lemma sync_loop_budget_exhausted:
  assumes "\<forall>k. c < k \<and> k \<le> N \<longrightarrow>
             fetchAndLoadState (env k) = None \<and> diffState (env k) = None
             \<and> (\<exists>e. writeState (env k) = Some e \<and> code e \<in> recoverableCodes)
             \<and> iCloudReady (env k) = None"
    and "c \<le> N"
  shows "fst (sync_loop N env c tr) = Rejected (MAX_RETRY N)
       \<and> length (filter (\<lambda>a. a = CallWriteState) (snd (sync_loop N env c tr)))
           = length (filter (\<lambda>a. a = CallWriteState) tr) + nat (N - c)"
  using assms
proof (induction "nat (N - c)" arbitrary: c tr)
  case 0
  then have "c = N" by simp
  then show ?case by (subst (1 2) sync_loop.simps) simp
next
  case (Suc n)
  then have gt: "N > c" and n: "n = nat (N - (c + 1))" and le: "c + 1 \<le> N" by auto
  let ?a = "env (c + 1)"
  have "c < c + 1 \<and> c + 1 \<le> N" using le by simp
  with Suc.prems(1) have "fetchAndLoadState ?a = None \<and> diffState ?a = None
             \<and> (\<exists>e. writeState ?a = Some e \<and> code e \<in> recoverableCodes)
             \<and> iCloudReady ?a = None" by blast
  then obtain e where a: "fetchAndLoadState ?a = None" "diffState ?a = None"
    "writeState ?a = Some e" "code e \<in> recoverableCodes" "iCloudReady ?a = None"
    by blast
  have step: "\<And>tr. sync_loop N env c tr
         = sync_loop N env (c + 1)
             (tr @ [CallFetchAndLoadState, CallDiffState, CallWriteState, EmitRETRY (c + 1)]
                 @ snd (prepareRetry ?a))"
    using gt a by (intro sync_loop_retry_step[where b = False])
      (auto simp: checkFatalError_recoverable prepareRetry_fst)
  have rest: "\<forall>k. c + 1 < k \<and> k \<le> N \<longrightarrow>
             fetchAndLoadState (env k) = None \<and> diffState (env k) = None
             \<and> (\<exists>e. writeState (env k) = Some e \<and> code e \<in> recoverableCodes)
             \<and> iCloudReady (env k) = None"
    using Suc.prems(1) by auto
  have nw: "filter (\<lambda>a. a = CallWriteState) (snd (prepareRetry ?a)) = []"
    by (auto simp: prepareRetry_def Let_def split: option.splits)
  from Suc.hyps(1)[OF n rest le] show ?case
    unfolding step using gt nw by (simp add: nat_diff_distrib')
qed

lemma sync_loop_starts_attempt:
  assumes "maxRetry > c"
  shows "\<exists>tr'. snd (sync_loop maxRetry env c tr) = tr @ CallFetchAndLoadState # tr'"
proof -
  have "\<And>x. \<exists>tr'. snd (sync_loop maxRetry env (c + 1) (tr @ CallFetchAndLoadState # x))
            = tr @ CallFetchAndLoadState # tr'"
    using sync_loop_trace_extends[of maxRetry env "c + 1"] 
    by (metis append.assoc append_Cons)
  then show ?thesis
    using assms
    apply (subst sync_loop.simps)
    apply (auto simp: Let_def split: option.splits sum.splits)
    done
qed


lemma prepareRetry_eq:
  "prepareRetry a =
     (iCloudReady a,
      (case downloadQueue a of
         None \<Rightarrow> []
       | Some (qsize, pending) \<Rightarrow>
           (if qsize > 0 then [QueueClear] else []) @ (if pending > 0 then [QueueOnIdle] else []))
      @ [GetReady, SetupAccount])"
  by (simp add: prepareRetry_def Let_def)

lemma sync_loop_budget_used:
  "\<not> maxRetry > c \<Longrightarrow> sync_loop maxRetry env c tr = (Rejected (MAX_RETRY c), tr)"
  by (subst sync_loop.simps) simp

text \<open>
  Claim C4, as the code has it. Only \<^verbatim>\<open>writeState()\<close> is inside the \<^verbatim>\<open>try\<close> block. In any
  attempt that the budget allows, an error thrown by \<^verbatim>\<open>fetchAndLoadState()\<close> or by
  \<^verbatim>\<open>diffState()\<close>, recoverable or not, leaves \<^verbatim>\<open>sync()\<close> unchanged and no retry is prepared.
  A recoverable error thrown by \<^verbatim>\<open>writeState()\<close> is always followed by the \<^verbatim>\<open>RETRY\<close> event and
  the preparation of a retry: the queue is cleared when jobs are waiting, the jobs in
  flight are awaited when there are any, and the session is refreshed. When the refresh
  rejects, its error leaves \<^verbatim>\<open>sync()\<close>; when it resolves, a new attempt starts with
  \<^verbatim>\<open>fetchAndLoadState()\<close> if the budget allows one, and the max-retry error is thrown if
  this was the last attempt.
\<close>

theorem sync_retry_covers_write_only:
  fixes maxRetry retryCount :: int and env :: "int \<Rightarrow> attempt" and tr :: "action list"
  defines "a \<equiv> env (retryCount + 1)"
    and "prepared \<equiv>
          tr @ [CallFetchAndLoadState, CallDiffState, CallWriteState, EmitRETRY (retryCount + 1)]
             @ (case downloadQueue (env (retryCount + 1)) of
                  None \<Rightarrow> []
                | Some (qsize, pending) \<Rightarrow>
                    (if qsize > 0 then [QueueClear] else [])
                    @ (if pending > 0 then [QueueOnIdle] else []))
             @ [GetReady, SetupAccount]"
  assumes gt: "maxRetry > retryCount"
  shows "(fetchAndLoadState a = Some e \<longrightarrow>
            sync_loop maxRetry env retryCount tr
              = (Rejected (Rethrown e), tr @ [CallFetchAndLoadState]))
       \<and> (fetchAndLoadState a = None \<and> diffState a = Some e \<longrightarrow>
            sync_loop maxRetry env retryCount tr
              = (Rejected (Rethrown e), tr @ [CallFetchAndLoadState, CallDiffState]))
       \<and> (fetchAndLoadState a = None \<and> diffState a = None
            \<and> writeState a = Some e \<and> code e \<in> recoverableCodes \<longrightarrow>
            (\<exists>tr'. snd (sync_loop maxRetry env retryCount tr) = prepared @ tr')
            \<and> (iCloudReady a = Some e' \<longrightarrow>
                  sync_loop maxRetry env retryCount tr = (Rejected (Rethrown e'), prepared))
            \<and> (iCloudReady a = None \<and> maxRetry > retryCount + 1 \<longrightarrow>
                  (\<exists>tr'. snd (sync_loop maxRetry env retryCount tr)
                            = prepared @ CallFetchAndLoadState # tr'))
            \<and> (iCloudReady a = None \<and> maxRetry = retryCount + 1 \<longrightarrow>
                  sync_loop maxRetry env retryCount tr
                    = (Rejected (MAX_RETRY (retryCount + 1)), prepared)))"
proof (intro conjI impI)
  assume "fetchAndLoadState a = Some e"
  with gt show "sync_loop maxRetry env retryCount tr
              = (Rejected (Rethrown e), tr @ [CallFetchAndLoadState])"
    unfolding a_def by (subst sync_loop.simps) (simp add: Let_def)
next
  assume "fetchAndLoadState a = None \<and> diffState a = Some e"
  with gt show "sync_loop maxRetry env retryCount tr
              = (Rejected (Rethrown e), tr @ [CallFetchAndLoadState, CallDiffState])"
    unfolding a_def by (subst sync_loop.simps) (simp add: Let_def)
next
  assume h: "fetchAndLoadState a = None \<and> diffState a = None
            \<and> writeState a = Some e \<and> code e \<in> recoverableCodes"
  then have cf: "checkFatalError e = Inr False" by (simp add: checkFatalError_recoverable)
  have pr: "snd (prepareRetry a)
      = (case downloadQueue (env (retryCount + 1)) of
           None \<Rightarrow> []
         | Some (qsize, pending) \<Rightarrow>
             (if qsize > 0 then [QueueClear] else []) @ (if pending > 0 then [QueueOnIdle] else []))
        @ [GetReady, SetupAccount]"
    unfolding a_def by (simp add: prepareRetry_eq)
  have rejected: "sync_loop maxRetry env retryCount tr = (Rejected (Rethrown x), prepared)"
    if "iCloudReady a = Some x" for x
    using gt h cf that pr unfolding a_def prepared_def
    by (subst sync_loop.simps) (simp add: Let_def prepareRetry_fst)
  have resolved: "sync_loop maxRetry env retryCount tr
      = sync_loop maxRetry env (retryCount + 1) prepared"
    if "iCloudReady a = None"
    using gt h cf that pr unfolding a_def prepared_def
    by (subst sync_loop.simps) (simp add: Let_def prepareRetry_fst)
  show "\<exists>tr'. snd (sync_loop maxRetry env retryCount tr) = prepared @ tr'"
  proof (cases "iCloudReady a")
    case None
    with resolved sync_loop_trace_extends[of maxRetry env "retryCount + 1" prepared]
    show ?thesis by simp
  next
    case (Some x)
    with rejected show ?thesis by simp
  qed
  {
    assume "iCloudReady a = Some e'"
    with rejected show "sync_loop maxRetry env retryCount tr = (Rejected (Rethrown e'), prepared)"
      by simp
  next
    assume "iCloudReady a = None \<and> maxRetry > retryCount + 1"
    with resolved sync_loop_starts_attempt[of "retryCount + 1" maxRetry env prepared]
    show "\<exists>tr'. snd (sync_loop maxRetry env retryCount tr)
                 = prepared @ CallFetchAndLoadState # tr'"
      by simp
  next
    assume "iCloudReady a = None \<and> maxRetry = retryCount + 1"
    with resolved sync_loop_budget_used[of maxRetry "retryCount + 1" env prepared]
    show "sync_loop maxRetry env retryCount tr
            = (Rejected (MAX_RETRY (retryCount + 1)), prepared)"
      by simp
  }
qed

text \<open>
  The last attempt of a budget of one, whose write fails with a bad response while four
  jobs are waiting and two are in flight: \<^verbatim>\<open>RETRY\<close>, the queue cleared and awaited, the
  session refreshed, then the max-retry error. With a budget of three the trace goes on
  with a new attempt; and a rejected refresh leaves \<^verbatim>\<open>sync()\<close> after the same actions.
\<close>

theorem sync_retry_covers_write_only_witness:
  "(1::int) > 0
   \<and> writeState (writeFails (0 + 1)) = Some badResponse \<and> code badResponse \<in> recoverableCodes
   \<and> sync_loop 1 writeFails 0 [EmitSTART]
       = (Rejected (MAX_RETRY 1),
          [EmitSTART, CallFetchAndLoadState, CallDiffState, CallWriteState, EmitRETRY 1,
           QueueClear, QueueOnIdle, GetReady, SetupAccount])
   \<and> (\<exists>tr'. snd (sync_loop 3 writeFails 0 [EmitSTART])
         = [EmitSTART, CallFetchAndLoadState, CallDiffState, CallWriteState, EmitRETRY 1,
            QueueClear, QueueOnIdle, GetReady, SetupAccount, CallFetchAndLoadState] @ tr')
   \<and> sync_loop 3 refreshFails 0 [EmitSTART]
       = (Rejected (Rethrown connectionReset),
          [EmitSTART, CallFetchAndLoadState, CallDiffState, CallWriteState, EmitRETRY 1,
           GetReady, SetupAccount])
   \<and> sync_loop 3 fetchFails 0 [EmitSTART]
       = (Rejected (Rethrown badResponse), [EmitSTART, CallFetchAndLoadState])"
proof -
  have g1: "(1::int) > 0" and g3: "(3::int) > 0" by simp_all
  have c: "code badResponse \<in> recoverableCodes"
    by (simp add: badResponse_def recoverableCodes_def)
  have w: "fetchAndLoadState (writeFails (0 + 1)) = None \<and> diffState (writeFails (0 + 1)) = None
      \<and> writeState (writeFails (0 + 1)) = Some badResponse
      \<and> iCloudReady (writeFails (0 + 1)) = None
      \<and> downloadQueue (writeFails (0 + 1)) = Some (4, 2)"
    by (simp add: writeFails_def attemptOk_def)
  have rf: "fetchAndLoadState (refreshFails (0 + 1)) = None
      \<and> diffState (refreshFails (0 + 1)) = None
      \<and> writeState (refreshFails (0 + 1)) = Some badResponse
      \<and> iCloudReady (refreshFails (0 + 1)) = Some connectionReset
      \<and> downloadQueue (refreshFails (0 + 1)) = None"
    by (simp add: refreshFails_def attemptOk_def)
  have f: "fetchAndLoadState (fetchFails (0 + 1)) = Some badResponse"
    by (simp add: fetchFails_def attemptOk_def)
  from sync_retry_covers_write_only[OF g1, of writeFails badResponse "[EmitSTART]"] w c
  have 1: "sync_loop 1 writeFails 0 [EmitSTART]
       = (Rejected (MAX_RETRY 1),
          [EmitSTART, CallFetchAndLoadState, CallDiffState, CallWriteState, EmitRETRY 1,
           QueueClear, QueueOnIdle, GetReady, SetupAccount])"
    by simp
  from sync_retry_covers_write_only[OF g3, of writeFails badResponse "[EmitSTART]"] w c
  have 2: "\<exists>tr'. snd (sync_loop 3 writeFails 0 [EmitSTART])
         = [EmitSTART, CallFetchAndLoadState, CallDiffState, CallWriteState, EmitRETRY 1,
            QueueClear, QueueOnIdle, GetReady, SetupAccount, CallFetchAndLoadState] @ tr'"
    by simp
  from sync_retry_covers_write_only[OF g3, of refreshFails badResponse "[EmitSTART]"
      connectionReset] rf c
  have 3: "sync_loop 3 refreshFails 0 [EmitSTART]
       = (Rejected (Rethrown connectionReset),
          [EmitSTART, CallFetchAndLoadState, CallDiffState, CallWriteState, EmitRETRY 1,
           GetReady, SetupAccount])"
    by simp
  from sync_retry_covers_write_only[OF g3, of fetchFails badResponse "[EmitSTART]"] f
  have 4: "sync_loop 3 fetchFails 0 [EmitSTART]
       = (Rejected (Rethrown badResponse), [EmitSTART, CallFetchAndLoadState])"
    by simp
  from g1 w c 1 2 3 4 show ?thesis by blast
qed

text \<open>
  With a budget of five attempts, a bad-response error thrown by the fetch, or by the
  diff, of the first attempt ends \<^verbatim>\<open>sync()\<close>: no \<^verbatim>\<open>RETRY\<close>, no second attempt.
\<close>

theorem sync_fetch_error_counterexample:
  "code badResponse \<in> recoverableCodes
   \<and> sync 5 fetchFails = (Rejected (Rethrown badResponse), [EmitSTART, CallFetchAndLoadState])
   \<and> sync 5 diffFails
       = (Rejected (Rethrown badResponse), [EmitSTART, CallFetchAndLoadState, CallDiffState])"
  by (simp add: sync_def sync_loop.simps fetchFails_def diffFails_def attemptOk_def
      badResponse_def recoverableCodes_def)

section \<open>Properties of the library loader\<close>

subsection \<open>The kind of a directory\<close>

lemma readdir_list_ex:
  "readdir fs p = Inr entries \<Longrightarrow>
   readAlbumTypeFromPath fs p =
     (if list_ex isDirectory entries
      then Inr (if list_ex isFile entries then [''Extranous file found in folder '' @ p] else [], FOLDER)
      else if list_ex isFile entries then Inr ([], ARCHIVED) else Inr ([], ALBUM))"
  by (simp add: readAlbumTypeFromPath_def)

text \<open>
  Claim C6. For every directory that can be read, \<^verbatim>\<open>readAlbumTypeFromPath\<close> answers
  \<^verbatim>\<open>FOLDER\<close> exactly when the directory has a subdirectory (with a warning exactly when it
  has a regular file as well), \<^verbatim>\<open>ARCHIVED\<close> exactly when it has no subdirectory but a
  regular file, and \<^verbatim>\<open>ALBUM\<close> in every other case, in particular when all its entries are
  symbolic links or it is empty.
\<close>

theorem readAlbumTypeFromPath_classification:
  assumes "readdir fs p = Inr entries"
  shows "\<exists>warnings t. readAlbumTypeFromPath fs p = Inr (warnings, t)
     \<and> (t = FOLDER \<longleftrightarrow> (\<exists>e \<in> set entries. isDirectory e))
     \<and> (t = ARCHIVED \<longleftrightarrow> \<not> (\<exists>e \<in> set entries. isDirectory e) \<and> (\<exists>e \<in> set entries. isFile e))
     \<and> (t = ALBUM \<longleftrightarrow> \<not> (\<exists>e \<in> set entries. isDirectory e) \<and> \<not> (\<exists>e \<in> set entries. isFile e))
     \<and> (warnings \<noteq> [] \<longleftrightarrow> (\<exists>e \<in> set entries. isDirectory e) \<and> (\<exists>e \<in> set entries. isFile e))
     \<and> ((\<forall>e \<in> set entries. isSymbolicLink e) \<longrightarrow> t = ALBUM)"
proof -
  define D where "D = (\<exists>e \<in> set entries. isDirectory e)"
  define F where "F = (\<exists>e \<in> set entries. isFile e)"
  have sym: "(\<forall>e \<in> set entries. isSymbolicLink e) \<Longrightarrow> \<not> D \<and> \<not> F"
    by (auto simp: D_def F_def isDirectory_def isFile_def isSymbolicLink_def)
  have r: "readAlbumTypeFromPath fs p =
     (if D then Inr (if F then [''Extranous file found in folder '' @ p] else [], FOLDER)
      else if F then Inr ([], ARCHIVED) else Inr ([], ALBUM))"
    using readdir_list_ex[OF assms] by (simp add: list_ex_iff D_def F_def)
  show ?thesis
    unfolding D_def[symmetric] F_def[symmetric] using r sym by (cases D; cases F) auto
qed

theorem readAlbumTypeFromPath_classification_witness:
  "readdir treeMixed ''/data/.F1''
     = Inr [Dirent ''.A1'' DirectoryType, Dirent ''notes.txt'' FileType,
            Dirent ''Rome'' SymbolicLinkType]
   \<and> (\<exists>warnings. readAlbumTypeFromPath treeMixed ''/data/.F1'' = Inr (warnings, FOLDER)
         \<and> warnings \<noteq> [])
   \<and> readdir treeMixed ''/data/.F2''
     = Inr [Dirent ''holiday.jpg'' FileType, Dirent ''Rome'' SymbolicLinkType]
   \<and> (\<exists>warnings. readAlbumTypeFromPath treeMixed ''/data/.F2'' = Inr (warnings, ARCHIVED))"
proof -
  have r1: "readdir treeMixed ''/data/.F1''
     = Inr [Dirent ''.A1'' DirectoryType, Dirent ''notes.txt'' FileType,
            Dirent ''Rome'' SymbolicLinkType]"
    by (simp add: readdir_def treeMixed_def)
  have r2: "readdir treeMixed ''/data/.F2''
     = Inr [Dirent ''holiday.jpg'' FileType, Dirent ''Rome'' SymbolicLinkType]"
    by (simp add: readdir_def treeMixed_def)
  from readAlbumTypeFromPath_classification[OF r1]
  have 1: "\<exists>warnings. readAlbumTypeFromPath treeMixed ''/data/.F1'' = Inr (warnings, FOLDER)
         \<and> warnings \<noteq> []"
    by (auto simp: isDirectory_def isFile_def)
  from readAlbumTypeFromPath_classification[OF r2]
  have 2: "\<exists>warnings. readAlbumTypeFromPath treeMixed ''/data/.F2'' = Inr (warnings, ARCHIVED)"
    by (auto simp: isDirectory_def isFile_def)
  from r1 r2 1 2 show ?thesis by blast
qed

subsection \<open>The albums that loadAlbum returns\<close>

text \<open>
  A folder with one link whose target directory holds no links: the folder itself is
  listed when its UUID is not empty, then the child, with the UUID cut from the target.
\<close>

lemma loadAlbum_leaf:
  assumes "readdir fs (albumPath child) = Inr entries'" and "filter isSymbolicLink entries' = []"
  shows "loadAlbum (Suc n) fs child = Some (Inr (if uuid child \<noteq> [] then [child] else []))"
  using assms by simp

lemma loadAlbum_single_link:
  assumes t: "albumType album = FOLDER"
    and d: "readdir fs (albumPath album) = Inr entries"
    and l: "filter isSymbolicLink entries = [link]"
    and r: "readlink fs (path_join (albumPath album) (name link)) = Inr target"
    and d': "readdir fs (path_join (albumPath album) target) = Inr entries'"
    and l': "filter isSymbolicLink entries' = []"
  shows "\<exists>warnings folderType.
           readAlbumTypeFromPath fs (path_join (albumPath album) target) = Inr (warnings, folderType)
         \<and> loadAlbum (Suc (Suc n)) fs album
             = Some (Inr ((if uuid album \<noteq> [] then [album] else []) @
                  (if drop 1 (basename target) \<noteq> []
                   then [newAlbum (drop 1 (basename target)) folderType (name link) (uuid album)
                           (path_join (albumPath album) target)]
                   else [])))"
proof -
  let ?full = "path_join (albumPath album) target"
  have "\<exists>w ft. readAlbumTypeFromPath fs ?full = Inr (w, ft)"
    by (simp add: readdir_list_ex[OF d'])
  then obtain w ft where ty: "readAlbumTypeFromPath fs ?full = Inr (w, ft)" by blast
  let ?child = "newAlbum (drop 1 (basename target)) ft (name link) (uuid album) ?full"
  have "loadAlbum (Suc n) fs ?child = Some (Inr (if uuid ?child \<noteq> [] then [?child] else []))"
    using d' l' by (intro loadAlbum_leaf[where entries' = entries']) (simp_all add: newAlbum_def)
  then have c: "loadAlbum (Suc n) fs ?child
      = Some (Inr (if drop 1 (basename target) \<noteq> [] then [?child] else []))"
    by (simp add: newAlbum_def del: One_nat_def loadAlbum.simps)
  have links: "loadAlbumLinks (loadAlbum (Suc n) fs) fs album [link] albums
      = Some (Inr (albums @ (if drop 1 (basename target) \<noteq> [] then [?child] else [])))"
    for albums
    using r t ty c by (simp add: Let_def del: One_nat_def loadAlbum.simps)
  have "loadAlbum (Suc (Suc n)) fs album
      = loadAlbumLinks (loadAlbum (Suc n) fs) fs album [link]
          (if uuid album \<noteq> [] then [album] else [])"
    by (subst loadAlbum.simps(2)) (simp add: d l Let_def del: loadAlbum.simps)
  with links ty show ?thesis by simp
qed

text \<open>
  In general, every album that \<^verbatim>\<open>loadAlbum\<close> returns has a non-empty UUID and is either
  the album the function was called with or comes from a link.
\<close>

lemma readdir_key: "readdir fs p = Inr entries \<Longrightarrow> (p, entries) \<in> set (directories fs)"
  by (auto simp: readdir_def split: option.splits dest: map_of_SomeD)

lemma readlink_key: "readlink fs p = Inr target \<Longrightarrow> (p, target) \<in> set (symlinks fs)"
  by (auto simp: readlink_def split: option.splits dest: map_of_SomeD)

lemma loadedFromLink_same: "sameAlbum x c \<Longrightarrow> loadedFromLink fs c \<Longrightarrow> loadedFromLink fs x"
  by (simp add: sameAlbum_def loadedFromLink_def)

lemma loadedFromLink_child:
  assumes "readdir fs (albumPath album) = Inr entries"
    and "readlink fs (path_join (albumPath album) (name link)) = Inr target"
  shows "loadedFromLink fs (newAlbum (drop 1 (basename target)) ft (name link) (uuid album)
           (path_join (albumPath album) target))"
  unfolding loadedFromLink_def
  using readdir_key[OF assms(1)] readlink_key[OF assms(2)]
  by (force simp: newAlbum_def)

lemma loadAlbumLinks_loaded:
  assumes rec: "\<And>child res. recurse child = Some (Inr res) \<Longrightarrow>
                  \<forall>x \<in> set res. uuid x \<noteq> [] \<and> (sameAlbum x child \<or> loadedFromLink fs x)"
    and rd: "readdir fs (albumPath album) = Inr entries"
  shows "\<forall>x \<in> set albums. uuid x \<noteq> [] \<and> (sameAlbum x album \<or> loadedFromLink fs x) \<Longrightarrow>
         loadAlbumLinks recurse fs album links albums = Some (Inr out) \<Longrightarrow>
         \<forall>x \<in> set out. uuid x \<noteq> [] \<and> (sameAlbum x album \<or> loadedFromLink fs x)"
proof (induction links arbitrary: albums)
  case Nil
  then show ?case by simp
next
  case (Cons link links)
  from Cons.prems(2) obtain target where
    tg: "readlink fs (path_join (albumPath album) (name link)) = Inr target"
    by (auto split: sum.splits)
  show ?case
  proof (cases "albumType album")
    case FOLDER
    let ?full = "path_join (albumPath album) target"
    from Cons.prems(2) tg FOLDER obtain w ft where
      ty: "readAlbumTypeFromPath fs ?full = Inr (w, ft)"
      by (auto simp: Let_def split: sum.splits)
    let ?child = "newAlbum (drop 1 (basename target)) ft (name link) (uuid album) ?full"
    from Cons.prems(2) tg FOLDER ty obtain loaded where
      ld: "recurse ?child = Some (Inr loaded)"
      and rest: "loadAlbumLinks recurse fs album links (albums @ loaded) = Some (Inr out)"
      by (auto simp: Let_def split: option.splits sum.splits simp del: One_nat_def)
    have ch: "loadedFromLink fs ?child" using rd tg by (rule loadedFromLink_child)
    have "\<forall>x \<in> set loaded. uuid x \<noteq> [] \<and> loadedFromLink fs x"
      using rec[OF ld] ch by (blast intro: loadedFromLink_same)
    with Cons.prems(1) have
      "\<forall>x \<in> set (albums @ loaded). uuid x \<noteq> [] \<and> (sameAlbum x album \<or> loadedFromLink fs x)"
      by auto
    from Cons.IH[OF this rest] show ?thesis .
  next
    case ALBUM
    from Cons.prems(2) tg ALBUM obtain first others where
      al: "albums = first # others"
      and rest: "loadAlbumLinks recurse fs album links
                   (first\<lparr>assets := AList.update (parseName target) (name link) (assets first)\<rparr>
                      # others) = Some (Inr out)"
      by (auto simp: Let_def split: list.splits)
    from Cons.prems(1) al have
      "\<forall>x \<in> set (first\<lparr>assets := AList.update (parseName target) (name link) (assets first)\<rparr>
                      # others). uuid x \<noteq> [] \<and> (sameAlbum x album \<or> loadedFromLink fs x)"
      by (auto simp: sameAlbum_def loadedFromLink_def)
    from Cons.IH[OF this rest] show ?thesis .
  next
    case ARCHIVED
    with Cons.prems(2) tg have "loadAlbumLinks recurse fs album links albums = Some (Inr out)"
      by simp
    from Cons.IH[OF Cons.prems(1) this] show ?thesis .
  qed
qed

lemma loadAlbum_loaded:
  "loadAlbum n fs album = Some (Inr out) \<Longrightarrow>
     \<forall>x \<in> set out. uuid x \<noteq> [] \<and> (sameAlbum x album \<or> loadedFromLink fs x)"
proof (induction n arbitrary: album out)
  case 0
  then show ?case by simp
next
  case (Suc n)
  from Suc.prems obtain entries where
    rd: "readdir fs (albumPath album) = Inr entries"
    and ll: "loadAlbumLinks (loadAlbum n fs) fs album (filter isSymbolicLink entries)
               (if length (uuid album) > 0 then [album] else []) = Some (Inr out)"
    by (auto simp: Let_def split: sum.splits)
  have "\<forall>x \<in> set (if length (uuid album) > 0 then [album] else []).
          uuid x \<noteq> [] \<and> (sameAlbum x album \<or> loadedFromLink fs x)"
    by (auto simp: sameAlbum_def)
  from loadAlbumLinks_loaded[of "loadAlbum n fs", OF Suc.IH rd this ll] show ?case .
qed

lemma update_entries: "set (AList.update k v m) \<subseteq> insert (k, v) (set m)"
  by (induction m) auto

lemma fold_update_entries:
  "set (fold (\<lambda>album libAlbums. AList.update (uuid album) album libAlbums) albums m)
     \<subseteq> set m \<union> (\<lambda>album. (uuid album, album)) ` set albums"
proof (induction albums arbitrary: m)
  case Nil
  show ?case by simp
next
  case (Cons a as)
  have "set (fold (\<lambda>album libAlbums. AList.update (uuid album) album libAlbums) as
               (AList.update (uuid a) a m))
        \<subseteq> set (AList.update (uuid a) a m) \<union> (\<lambda>album. (uuid album, album)) ` set as"
    by (rule Cons.IH)
  with update_entries[of "uuid a" a m] show ?case by auto
qed

lemma loadAlbums_entries:
  assumes "loadAlbums n fs rootAlbum = Some (Inr libAlbums)"
  shows "\<forall>(k, album) \<in> set libAlbums.
           k = uuid album \<and> uuid album \<noteq> []
           \<and> (sameAlbum album rootAlbum \<or> loadedFromLink fs album)"
proof -
  from assms obtain albums where
    la: "loadAlbum n fs rootAlbum = Some (Inr albums)"
    and lib: "libAlbums = fold (\<lambda>album libAlbums. AList.update (uuid album) album libAlbums) albums []"
    by (auto simp: loadAlbums_def split: option.splits sum.splits)
  from fold_update_entries[of albums "[]"] lib
  have sub: "set libAlbums \<subseteq> (\<lambda>album. (uuid album, album)) ` set albums" by simp
  show ?thesis
  proof (clarify)
    fix k album assume "(k, album) \<in> set libAlbums"
    with sub obtain a where a: "a \<in> set albums" "k = uuid a" "album = a" by auto
    with loadAlbum_loaded[OF la]
    show "k = uuid album \<and> uuid album \<noteq> []
           \<and> (sameAlbum album rootAlbum \<or> loadedFromLink fs album)" by auto
  qed
qed

subsection \<open>The UUID of a loaded album\<close>

text \<open>
  Claim C7, as the code has it. Every album in the map that \<^verbatim>\<open>loadAlbums\<close> returns is stored
  under its UUID and comes from a symbolic link: its UUID is the base name of the link's
  target without its first character, all of the rest, a \<^verbatim>\<open>-\<close> and what follows it
  included.
\<close>

theorem loadAlbums_uuid_from_link_target:
  assumes l: "loadAlbums n fs rootAlbum = Some (Inr libAlbums)" and r: "uuid rootAlbum = []"
  shows "\<forall>(k, album) \<in> set libAlbums. k = uuid album \<and> loadedFromLink fs album"
  using loadAlbums_entries[OF l] r by (auto simp: sameAlbum_def)

theorem loadAlbums_uuid_from_link_target_witness:
  "loadAlbums 2 treeSpecLayout (getRootAlbum ''/data'')
     = Some (Inr [(''F1-Trips'', newAlbum ''F1-Trips'' ALBUM ''Trips'' [] ''/data/.F1-Trips'')])
   \<and> uuid (getRootAlbum ''/data'') = []
   \<and> loadedFromLink treeSpecLayout (newAlbum ''F1-Trips'' ALBUM ''Trips'' [] ''/data/.F1-Trips'')"
proof -
  have e: "loadAlbums 2 treeSpecLayout (getRootAlbum ''/data'')
     = Some (Inr [(''F1-Trips'', newAlbum ''F1-Trips'' ALBUM ''Trips'' [] ''/data/.F1-Trips'')])"
    by code_simp
  have u: "uuid (getRootAlbum ''/data'') = []" by (simp add: getRootAlbum_def newAlbum_def)
  from loadAlbums_uuid_from_link_target[OF e u] e u show ?thesis by simp
qed

text \<open>
  For the directory \<^verbatim>\<open>.F1-Trips\<close> the recovered UUID is \<^verbatim>\<open>F1-Trips\<close>, not \<^verbatim>\<open>F1\<close>: nothing is
  cut at the first \<^verbatim>\<open>-\<close>.
\<close>

theorem loadAlbum_uuid_counterexample:
  "loadAlbum 2 treeSpecLayout (getRootAlbum ''/data'')
     = Some (Inr [newAlbum ''F1-Trips'' ALBUM ''Trips'' [] ''/data/.F1-Trips''])"
  by code_simp

subsection \<open>The root album is not in the loaded map\<close>

text \<open>
  Claim C10. Whenever \<^verbatim>\<open>loadAlbums\<close> returns a map, every key and every album in it has a
  non-empty UUID; nothing is stored under the empty UUID, so the root album is not in the
  map. (That the children of the root are still loaded is what the example after the
  theorem shows.)
\<close>

theorem loadAlbums_without_root:
  assumes "loadAlbums n fs rootAlbum = Some (Inr libAlbums)"
  shows "(\<forall>(k, album) \<in> set libAlbums. k \<noteq> [] \<and> uuid album \<noteq> [])
       \<and> map_of libAlbums [] = None
       \<and> (uuid rootAlbum = [] \<longrightarrow> rootAlbum \<notin> snd ` set libAlbums)"
proof -
  from loadAlbums_entries[OF assms]
  have 1: "\<forall>(k, album) \<in> set libAlbums. k \<noteq> [] \<and> uuid album \<noteq> []" by auto
  then have 2: "map_of libAlbums [] = None"
    by (auto simp: map_of_eq_None_iff)
  from 1 have 3: "uuid rootAlbum = [] \<longrightarrow> rootAlbum \<notin> snd ` set libAlbums" by auto
  from 1 2 3 show ?thesis by blast
qed

theorem loadAlbums_without_root_witness:
  "loadAlbums 3 treeNested (getRootAlbum ''/data'')
     = Some (Inr [(''F1'', newAlbum ''F1'' FOLDER ''Trips'' [] ''/data/.F1''),
                  (''A1'', (newAlbum ''A1'' ALBUM ''Rome'' ''F1'' ''/data/.F1/.A1'')
                             \<lparr>assets := [(''a1'', ''img.jpg'')]\<rparr>)])
   \<and> uuid (getRootAlbum ''/data'') = []
   \<and> getRootAlbum ''/data''
       \<notin> snd ` set [(''F1'', newAlbum ''F1'' FOLDER ''Trips'' [] ''/data/.F1''),
                  (''A1'', (newAlbum ''A1'' ALBUM ''Rome'' ''F1'' ''/data/.F1/.A1'')
                             \<lparr>assets := [(''a1'', ''img.jpg'')]\<rparr>)]"
proof -
  have e: "loadAlbums 3 treeNested (getRootAlbum ''/data'')
     = Some (Inr [(''F1'', newAlbum ''F1'' FOLDER ''Trips'' [] ''/data/.F1''),
                  (''A1'', (newAlbum ''A1'' ALBUM ''Rome'' ''F1'' ''/data/.F1/.A1'')
                             \<lparr>assets := [(''a1'', ''img.jpg'')]\<rparr>)])"
    by code_simp
  have u: "uuid (getRootAlbum ''/data'') = []" by (simp add: getRootAlbum_def newAlbum_def)
  from loadAlbums_without_root[OF e] e u show ?thesis by blast
qed

section \<open>Albums in the differ\<close>




end
